theory Spec2Isabelle
  imports Main "HOL-Library.List_Lexorder" "HOL-Library.Product_Lexorder"
    "HOL-Library.Multiset"
begin

section \<open>Strings and paths\<close>

text \<open>
  A Python \<^verbatim>\<open>str\<close> is a sequence of Unicode code points, so it is modelled as a list of
  natural numbers: \<open>length\<close> is Python's \<^verbatim>\<open>len\<close>, \<open>@\<close> is concatenation, and the
  lexicographic order on lists (HOL-Library.List_Lexorder) is Python's comparison of
  strings. ASCII literals are written through \<open>ascii\<close>; the box-drawing and Cyrillic
  literals of the source are written as code points.
\<close>

type_synonym pystr = "nat list"

definition ascii :: "string \<Rightarrow> pystr" where
  "ascii s = map of_char s"

text \<open>
  \<^verbatim>\<open>str.lower\<close> restricted to ASCII letters. The walk takes the lower-casing function as
  a parameter (Unicode's case mapping is a table of the Python runtime, not of this
  program); \<open>ascii_lower\<close> is the instance used on concrete inputs.
\<close>

definition ascii_lower :: "pystr \<Rightarrow> pystr" where
  "ascii_lower s = map (\<lambda>c. if 65 \<le> c \<and> c \<le> 90 then c + 32 else c) s"

text \<open>
  \<^verbatim>\<open>pathlib.Path\<close> on POSIX: whether the path is anchored at \<^verbatim>\<open>/\<close>, and its name
  components. \<^verbatim>\<open>Path(".")\<close> has no components and is not anchored.
\<close>

datatype path = PosixPath (is_absolute: bool) (parts: "pystr list")

text \<open>\<^verbatim>\<open>path / name\<close> for a single file name, as \<^verbatim>\<open>iterdir\<close> builds its items.\<close>

definition joinpath :: "path \<Rightarrow> pystr \<Rightarrow> path" where
  "joinpath p nm = PosixPath (is_absolute p) (parts p @ [nm])"

text \<open>The path reached from \<open>p\<close> by joining the names \<open>ns\<close> one after the other.\<close>

definition joinpaths :: "path \<Rightarrow> pystr list \<Rightarrow> path" where
  "joinpaths p ns = fold (\<lambda>nm q. joinpath q nm) ns p"

fun join :: "pystr \<Rightarrow> pystr list \<Rightarrow> pystr" where
  "join sep [] = []"
| "join sep [x] = x"
| "join sep (x # y # ys) = x @ sep @ join sep (y # ys)"

text \<open>\<^verbatim>\<open>str(path)\<close>.\<close>

definition str_path :: "path \<Rightarrow> pystr" where
  "str_path p =
     (if parts p = [] then (if is_absolute p then ascii ''/'' else ascii ''.'')
      else (if is_absolute p then ascii ''/'' else []) @ join (ascii ''/'') (parts p))"

text \<open>
  \<^verbatim>\<open>path.is_relative_to(other)\<close> and \<^verbatim>\<open>path.relative_to(other)\<close>. pathlib raises
  \<^verbatim>\<open>ValueError\<close> from \<^verbatim>\<open>relative_to\<close> when \<open>is_relative_to\<close> is false; the walk calls it
  only on items it has built below the root (lemmas \<open>is_relative_to_refl\<close> and
  \<open>is_relative_to_joinpath\<close>), where it returns the components after those of the
  root.
\<close>

definition is_relative_to :: "path \<Rightarrow> path \<Rightarrow> bool" where
  "is_relative_to p other \<longleftrightarrow>
     is_absolute p = is_absolute other \<and>
     take (length (parts other)) (parts p) = parts other"

definition relative_to :: "path \<Rightarrow> path \<Rightarrow> path" where
  "relative_to p other = PosixPath False (drop (length (parts other)) (parts p))"

text \<open>\<^verbatim>\<open>os.path.isabs\<close> on POSIX: the string starts with a slash.\<close>

definition isabs :: "pystr \<Rightarrow> bool" where
  "isabs s = (take 1 s = ascii ''/'')"

section \<open>The file system\<close>

text \<open>
  The walk reads a snapshot of the file system below the root: a finite tree, in
  which no directory lies below itself. A regular file carries the outcome of opening
  and reading it as text (\<open>Inl\<close> an exception, \<open>Inr\<close> the text decoded with
  \<^verbatim>\<open>errors='ignore'\<close>); a directory carries the outcome of \<^verbatim>\<open>iterdir\<close>:
  \<^verbatim>\<open>PermissionError\<close>, or its children in the order the operating system lists them.
  \<open>Special\<close> is an entry for which both \<^verbatim>\<open>is_file()\<close> and \<^verbatim>\<open>is_dir()\<close> are false
  (a socket, a FIFO, a dangling symbolic link).

  The snapshot does not change during the walk, \<^verbatim>\<open>is_file()\<close> and \<^verbatim>\<open>is_dir()\<close> answer
  without raising, and listing a directory fails with \<^verbatim>\<open>PermissionError\<close> or not at all:
  these are the failures the program handles. Any other exception would leave the
  generator uncaught and end the run.
\<close>

datatype exn = PermissionError | OSError | RecursionError | UnicodeEncodeError | OtherException

datatype fsnode =
    RegularFile pystr "exn + pystr"
  | Directory pystr listing
  | Special pystr
and listing =
    PermissionDenied
  | Entries "fsnode list"

fun name :: "fsnode \<Rightarrow> pystr" where
  "name (RegularFile nm rd) = nm"
| "name (Directory nm l) = nm"
| "name (Special nm) = nm"

fun is_file :: "fsnode \<Rightarrow> bool" where
  "is_file (RegularFile nm rd) = True"
| "is_file (Directory nm l) = False"
| "is_file (Special nm) = False"

fun is_dir :: "fsnode \<Rightarrow> bool" where
  "is_dir (RegularFile nm rd) = False"
| "is_dir (Directory nm l) = True"
| "is_dir (Special nm) = False"

text \<open>The number of entries of a snapshot, at every depth.\<close>

fun count_nodes :: "fsnode \<Rightarrow> nat"
  and count_listing :: "listing \<Rightarrow> nat" where
  "count_nodes (RegularFile nm rd) = 1"
| "count_nodes (Directory nm l) = Suc (count_listing l)"
| "count_nodes (Special nm) = 1"
| "count_listing PermissionDenied = 0"
| "count_listing (Entries cs) = sum_list (map count_nodes cs)"

text \<open>
  The names the operating system lists are file names: not empty and without a slash.
\<close>

definition valid_name :: "pystr \<Rightarrow> bool" where
  "valid_name nm \<longleftrightarrow> nm \<noteq> [] \<and> 47 \<notin> set nm"

fun valid_node :: "fsnode \<Rightarrow> bool"
  and valid_listing :: "listing \<Rightarrow> bool" where
  "valid_node (RegularFile nm rd) = valid_name nm"
| "valid_node (Directory nm l) = (valid_name nm \<and> valid_listing l)"
| "valid_node (Special nm) = valid_name nm"
| "valid_listing PermissionDenied = True"
| "valid_listing (Entries cs) = list_all valid_node cs"

text \<open>
  \<open>file_at ignore_dirs l ns rd\<close>: following the names \<open>ns\<close> from the listing \<open>l\<close>,
  through directories that can be listed, leads to a regular file with read outcome
  \<open>rd\<close>, and none of the names is in the ignore set.
\<close>

fun file_at_node :: "pystr set \<Rightarrow> fsnode \<Rightarrow> pystr list \<Rightarrow> exn + pystr \<Rightarrow> bool"
  and file_at :: "pystr set \<Rightarrow> listing \<Rightarrow> pystr list \<Rightarrow> exn + pystr \<Rightarrow> bool" where
  "file_at_node ignore_dirs (RegularFile nm rd') ns rd =
     (nm \<notin> ignore_dirs \<and> ns = [nm] \<and> rd = rd')"
| "file_at_node ignore_dirs (Directory nm l) ns rd =
     (nm \<notin> ignore_dirs \<and>
      (case ns of [] \<Rightarrow> False | n # ns' \<Rightarrow> n = nm \<and> file_at ignore_dirs l ns' rd))"
| "file_at_node ignore_dirs (Special nm) ns rd = False"
| "file_at ignore_dirs PermissionDenied ns rd = False"
| "file_at ignore_dirs (Entries cs) ns rd =
     list_ex (\<lambda>c. file_at_node ignore_dirs c ns rd) cs"

section \<open>Counting characters\<close>

text \<open>
  \<^verbatim>\<open>count_chars\<close>: the length of the text read, and 0 when opening or reading raises
  any exception.
\<close>

fun count_chars :: "exn + pystr \<Rightarrow> nat" where
  "count_chars (Inr text) = length text"
| "count_chars (Inl e) = 0"

text \<open>The format specification \<^verbatim>\<open>{n:,}\<close>: decimal digits in groups of three.\<close>

function decimal :: "nat \<Rightarrow> pystr" where
  "decimal n = (if n < 10 then [48 + n] else decimal (n div 10) @ [48 + n mod 10])"
  by pat_completeness auto
termination
  by (relation "measure id") auto

declare decimal.simps [simp del]

function format_thousands :: "nat \<Rightarrow> pystr" where
  "format_thousands n =
     (if n < 1000 then decimal n
      else format_thousands (n div 1000) @ ascii '','' @
           [48 + n mod 1000 div 100, 48 + n mod 100 div 10, 48 + n mod 10])"
  by pat_completeness auto
termination
  by (relation "measure id") auto

declare format_thousands.simps [simp del]

section \<open>The walk\<close>

type_synonym file_entry = "pystr \<times> nat \<times> pystr"

text \<open>
  The generator \<^verbatim>\<open>walk_directory\<close> yields lines and appends to \<^verbatim>\<open>file_info\<close>; the
  model returns both sequences. Its arguments are the closure variables
  (\<^verbatim>\<open>str.lower\<close>, \<^verbatim>\<open>ignore_dirs\<close>, \<^verbatim>\<open>root\<close>), the parameters \<^verbatim>\<open>path\<close>, \<^verbatim>\<open>prefix\<close> and
  \<^verbatim>\<open>is_last\<close>, and the outcome of \<^verbatim>\<open>path.iterdir()\<close>. \<open>walk_item\<close> is the body of
  the loop for one item, \<open>is_last_item\<close> being the value of
  \<^verbatim>\<open>i == len(items) - 1\<close>; \<open>flatten\<close> puts the results of the iterations one after
  the other. \<open>sorted_items\<close> is the list \<^verbatim>\<open>items\<close>: \<^verbatim>\<open>sorted\<close> is stable, as
  \<open>sort_key\<close> is.

  These functions give what the generators yield as long as the interpreter's
  recursion limit is not reached; \<open>run_walk_directory\<close> below is the walk under that
  limit.
\<close>

definition flatten :: "('a list \<times> 'b list) list \<Rightarrow> 'a list \<times> 'b list" where
  "flatten rs = (concat (map fst rs), concat (map snd rs))"

definition sorted_items :: "(pystr \<Rightarrow> pystr) \<Rightarrow> fsnode list \<Rightarrow> fsnode list" where
  "sorted_items lower cs = sort_key (\<lambda>x. (is_file x, lower (name x))) cs"

lemma sum_list_insort_key:
  "sum_list (map g (insort_key f x xs)) = g x + sum_list (map g xs)"
  for g :: "'a \<Rightarrow> nat"
  by (induction xs) auto

lemma sum_list_sort_key:
  "sum_list (map g (sort_key f xs)) = sum_list (map g xs)"
  for g :: "'a \<Rightarrow> nat"
  by (induction xs) (auto simp: sum_list_insort_key)

lemma count_nodes_le_sorted_items:
  assumes "item \<in> set (sorted_items lower cs)"
  shows "count_nodes item \<le> sum_list (map count_nodes cs)"
proof -
  have "count_nodes item \<le> sum_list (map count_nodes (sorted_items lower cs))"
    using assms by (simp add: member_le_sum_list)
  then show ?thesis by (simp add: sorted_items_def sum_list_sort_key)
qed

function walk_directory ::
    "(pystr \<Rightarrow> pystr) \<Rightarrow> pystr set \<Rightarrow> path \<Rightarrow> path \<Rightarrow> pystr \<Rightarrow> bool \<Rightarrow> listing
       \<Rightarrow> pystr list \<times> file_entry list"
  and walk_item ::
    "(pystr \<Rightarrow> pystr) \<Rightarrow> pystr set \<Rightarrow> path \<Rightarrow> path \<Rightarrow> pystr \<Rightarrow> bool \<Rightarrow> fsnode
       \<Rightarrow> pystr list \<times> file_entry list" where
  "walk_directory lower ignore_dirs root path prefix is_last PermissionDenied = ([], [])"
| "walk_directory lower ignore_dirs root path prefix is_last (Entries cs) =
     (let items = sorted_items lower cs in
      flatten (map (\<lambda>(i, item).
                 walk_item lower ignore_dirs root path prefix (i = length items - 1) item)
               (enumerate 0 items)))"
| "walk_item lower ignore_dirs root path prefix is_last_item item =
     (let current_prefix = (if is_last_item then [9492, 9472, 9472, 32]
                            else [9500, 9472, 9472, 32]);
          connector = (if is_last_item then [32, 32, 32, 32] else [9474, 32, 32, 32])
      in if name item \<in> ignore_dirs then ([], [])
         else (case item of
             RegularFile nm rd \<Rightarrow>
               (let char_count = count_chars rd;
                    relative_path = relative_to (joinpath path nm) root
                in ([prefix @ current_prefix @ nm @ ascii '' ('' @
                       format_thousands char_count @ ascii '')''],
                    [(str_path (joinpath path nm), char_count, str_path relative_path)]))
           | Directory nm l \<Rightarrow>
               (let next_prefix = prefix @ connector;
                    sub = walk_directory lower ignore_dirs root (joinpath path nm)
                            next_prefix is_last_item l
                in ((prefix @ current_prefix @ nm @ ascii ''/'') # fst sub, snd sub))
           | Special nm \<Rightarrow> ([], [])))"
  by pat_completeness auto
termination
proof (relation "measure (\<lambda>x. case x of
          Inl (lower, ignore_dirs, root, path, prefix, is_last, l) \<Rightarrow> 2 * count_listing l + 1
        | Inr (lower, ignore_dirs, root, path, prefix, is_last_item, item) \<Rightarrow>
            2 * count_nodes item)", goal_cases)
  case 1
  show ?case by simp
next
  case (2 lower ignore_dirs root path prefix is_last cs items x i item)
  then have "item \<in> set (sorted_items lower cs)"
    by (auto simp: in_set_enumerate_eq)
  from count_nodes_le_sorted_items [OF this] show ?case by simp
next
  case (3 lower ignore_dirs root path prefix is_last_item item)
  then show ?case by simp
qed

declare walk_item.simps [simp del]

declare walk_directory.simps(2) [simp del]

text \<open>
  The iterations of the loop of \<^verbatim>\<open>walk_directory\<close> for the items at the indices
  \<open>k\<close>, \<open>k + 1\<close>, ... of a sorted listing of \<open>n\<close> items.
\<close>

definition walk_items ::
    "(pystr \<Rightarrow> pystr) \<Rightarrow> pystr set \<Rightarrow> path \<Rightarrow> path \<Rightarrow> pystr \<Rightarrow> nat \<Rightarrow> nat \<Rightarrow> fsnode list
       \<Rightarrow> pystr list \<times> file_entry list" where
  "walk_items lower ignore_dirs root path prefix n k items =
     flatten (map (\<lambda>(i, item).
                walk_item lower ignore_dirs root path prefix (i = n - 1) item)
              (enumerate k items))"

text \<open>
  The snapshot in which every directory whose name is in the ignore set has been
  emptied, at every depth below directories that are not ignored.
\<close>

fun prune :: "pystr set \<Rightarrow> fsnode \<Rightarrow> fsnode"
  and prune_listing :: "pystr set \<Rightarrow> listing \<Rightarrow> listing" where
  "prune ignore_dirs (RegularFile nm rd) = RegularFile nm rd"
| "prune ignore_dirs (Directory nm l) =
     (if nm \<in> ignore_dirs then Directory nm (Entries [])
      else Directory nm (prune_listing ignore_dirs l))"
| "prune ignore_dirs (Special nm) = Special nm"
| "prune_listing ignore_dirs PermissionDenied = PermissionDenied"
| "prune_listing ignore_dirs (Entries cs) = Entries (map (prune ignore_dirs) cs)"

section \<open>The report\<close>

definition default_ignore_dirs :: "pystr set" where
  "default_ignore_dirs =
     {ascii ''.git'', ascii ''__pycache__'', ascii ''node_modules'', ascii ''.next'',
      ascii ''.turbo'', ascii ''dist'', ascii ''build'', ascii ''.sst''}"

text \<open>
  \<^verbatim>\<open>get_tree_structure(root_dir, ignore_dirs=None)\<close>. The root is given as the path
  \<^verbatim>\<open>Path(root_dir)\<close> together with the outcome of listing it.
\<close>

definition get_tree_structure ::
    "(pystr \<Rightarrow> pystr) \<Rightarrow> path \<Rightarrow> pystr set option \<Rightarrow> listing
       \<Rightarrow> pystr list \<times> file_entry list" where
  "get_tree_structure lower root_dir ignore_dirs fs =
     (let ignore_dirs = (case ignore_dirs of None \<Rightarrow> default_ignore_dirs | Some s \<Rightarrow> s);
          root = root_dir
      in walk_directory lower ignore_dirs root root [] True fs)"

text \<open>
  \<^verbatim>\<open>list.sort(key=..., reverse=True)\<close>: CPython reverses the list, sorts it stably in
  ascending order of the key, and reverses the result.
\<close>

definition sort_reverse :: "('a \<Rightarrow> 'k::linorder) \<Rightarrow> 'a list \<Rightarrow> 'a list" where
  "sort_reverse key xs = rev (sort_key key (rev xs))"

definition banner :: pystr where
  "banner = replicate 80 61"

definition newline :: pystr where
  "newline = [10]"

text \<open>The text written to the output file: the arguments of the \<^verbatim>\<open>f.write\<close> calls, in order.\<close>

definition tree_section :: "pystr list \<Rightarrow> pystr list" where
  "tree_section tree_lines =
     [banner @ newline,
      [84, 82, 69, 69, 32, 1057, 1058, 1056, 1059, 1050, 1058, 1059, 1056, 1040, 32,
       1056, 1045, 1055, 1054, 1047, 1048, 1058, 1054, 1056, 1048, 1071] @ newline,
      banner @ newline @ newline,
      ascii ''.'' @ newline]
     @ map (\<lambda>line. line @ newline) tree_lines"

definition top_files_section :: "file_entry list \<Rightarrow> pystr list" where
  "top_files_section file_info =
     [newline @ banner @ newline,
      [1058, 1054, 1055, 32, 49, 48, 48, 32, 1060, 1040, 1049, 1051, 1054, 1042, 32,
       1055, 1054, 32, 1050, 1054, 1051, 1048, 1063, 1045, 1057, 1058, 1042, 1059, 32,
       1057, 1048, 1052, 1042, 1054, 1051, 1054, 1042, 32, 40, 1086, 1090, 32, 1073,
       1086, 1083, 1100, 1096, 1080, 1093, 32, 1082, 32, 1084, 1072, 1083, 1077, 1085,
       1100, 1082, 1080, 1084, 41] @ newline,
      banner @ newline @ newline]
     @ map (\<lambda>(full_path, char_count, relative_path).
              full_path @ ascii '' ('' @ format_thousands char_count @ ascii '')'' @ newline)
         (take 100 file_info)"

record run =
  written :: "pystr list"
  printed :: "pystr list"
  file_info :: "file_entry list"

text \<open>
  \<^verbatim>\<open>main\<close>, on the outcome of listing the current directory: what is written to
  \<^verbatim>\<open>repo_structure.txt\<close>, what is printed, and the sorted \<^verbatim>\<open>file_info\<close>.
\<close>

definition main :: "(pystr \<Rightarrow> pystr) \<Rightarrow> listing \<Rightarrow> run" where
  "main lower fs =
     (let root_dir = PosixPath False [];
          output_file = ascii ''repo_structure.txt'';
          (tree_lines, file_info) = get_tree_structure lower root_dir None fs;
          file_info = sort_reverse (\<lambda>x. fst (snd x)) file_info
      in \<lparr>written = tree_section tree_lines @ top_files_section file_info,
          printed =
            [[1043, 1077, 1085, 1077, 1088, 1072, 1094, 1080, 1103, 32, 116, 114, 101, 101,
              45, 1089, 1090, 1088, 1091, 1082, 1090, 1091, 1088, 1099, 46, 46, 46],
             [1057, 1086, 1088, 1090, 1080, 1088, 1086, 1074, 1082, 1072, 32, 1092, 1072,
              1081, 1083, 1086, 1074, 32, 1087, 1086, 32, 1088, 1072, 1079, 1084, 1077,
              1088, 1091, 46, 46, 46],
             [1047, 1072, 1087, 1080, 1089, 1100, 32, 1074, 32, 1092, 1072, 1081, 1083, 46,
              46, 46],
             [1043, 1086, 1090, 1086, 1074, 1086, 33, 32, 1056, 1077, 1079, 1091, 1083,
              1100, 1090, 1072, 1090, 32, 1089, 1086, 1093, 1088, 1072, 1085, 1077, 1085,
              32, 1074, 32] @ output_file,
             [1042, 1089, 1077, 1075, 1086, 32, 1092, 1072, 1081, 1083, 1086, 1074, 32,
              1086, 1073, 1088, 1072, 1073, 1086, 1090, 1072, 1085, 1086, 58, 32]
               @ decimal (length file_info)],
          file_info = file_info\<rparr>)"

section \<open>The run under the limits of the interpreter\<close>

text \<open>
  The definitions above give what the program text computes. A run on CPython can also
  stop with an exception that the program does not handle.

  Each nested \<^verbatim>\<open>walk_directory\<close> generator that is running holds a frame of the
  interpreter, and the interpreter refuses a frame beyond its recursion limit with
  \<^verbatim>\<open>RecursionError\<close>, which \<^verbatim>\<open>except PermissionError\<close> does not catch: it leaves the
  loops of all the generators and \<^verbatim>\<open>list(...)\<close>, so that nothing is returned.
  \<open>limit\<close> is the number of nested \<^verbatim>\<open>walk_directory\<close> generators that can run; the
  frames of \<^verbatim>\<open>main\<close>, of \<^verbatim>\<open>get_tree_structure\<close> and of the library calls in the body
  make it smaller than \<^verbatim>\<open>sys.getrecursionlimit()\<close>, which is 1000 by default.
  \<open>depth\<close> is the number of such generators already running.

  \<open>collect\<close> runs the iterations of a loop in order and stops at the first exception.
\<close>

fun collect :: "(exn + 'a list \<times> 'b list) list \<Rightarrow> exn + 'a list \<times> 'b list" where
  "collect [] = Inr ([], [])"
| "collect (Inl e # rs) = Inl e"
| "collect (Inr r # rs) =
     (case collect rs of
        Inl e \<Rightarrow> Inl e
      | Inr r' \<Rightarrow> Inr (fst r @ fst r', snd r @ snd r'))"

function run_walk_directory ::
    "nat \<Rightarrow> nat \<Rightarrow> (pystr \<Rightarrow> pystr) \<Rightarrow> pystr set \<Rightarrow> path \<Rightarrow> path \<Rightarrow> pystr \<Rightarrow> bool \<Rightarrow> listing
       \<Rightarrow> exn + pystr list \<times> file_entry list"
  and run_walk_item ::
    "nat \<Rightarrow> nat \<Rightarrow> (pystr \<Rightarrow> pystr) \<Rightarrow> pystr set \<Rightarrow> path \<Rightarrow> path \<Rightarrow> pystr \<Rightarrow> bool \<Rightarrow> fsnode
       \<Rightarrow> exn + pystr list \<times> file_entry list" where
  "run_walk_directory limit depth lower ignore_dirs root path prefix is_last PermissionDenied =
     (if limit \<le> depth then Inl RecursionError else Inr ([], []))"
| "run_walk_directory limit depth lower ignore_dirs root path prefix is_last (Entries cs) =
     (if limit \<le> depth then Inl RecursionError
      else
        (let items = sorted_items lower cs in
         collect (map (\<lambda>(i, item).
                    run_walk_item limit depth lower ignore_dirs root path prefix
                      (i = length items - 1) item)
                  (enumerate 0 items))))"
| "run_walk_item limit depth lower ignore_dirs root path prefix is_last_item item =
     (let current_prefix = (if is_last_item then [9492, 9472, 9472, 32]
                            else [9500, 9472, 9472, 32]);
          connector = (if is_last_item then [32, 32, 32, 32] else [9474, 32, 32, 32])
      in if name item \<in> ignore_dirs then Inr ([], [])
         else (case item of
             RegularFile nm rd \<Rightarrow>
               (let char_count = count_chars rd;
                    relative_path = relative_to (joinpath path nm) root
                in Inr ([prefix @ current_prefix @ nm @ ascii '' ('' @
                           format_thousands char_count @ ascii '')''],
                        [(str_path (joinpath path nm), char_count,
                          str_path relative_path)]))
           | Directory nm l \<Rightarrow>
               (let next_prefix = prefix @ connector
                in case run_walk_directory limit (Suc depth) lower ignore_dirs root
                          (joinpath path nm) next_prefix is_last_item l of
                     Inl e \<Rightarrow> Inl e
                   | Inr sub \<Rightarrow>
                       Inr ((prefix @ current_prefix @ nm @ ascii ''/'') # fst sub, snd sub))
           | Special nm \<Rightarrow> Inr ([], [])))"
  by pat_completeness auto
termination
proof (relation "measure (\<lambda>x. case x of
          Inl (limit, depth, lower, ignore_dirs, root, path, prefix, is_last, l) \<Rightarrow>
            2 * count_listing l + 1
        | Inr (limit, depth, lower, ignore_dirs, root, path, prefix, is_last_item, item) \<Rightarrow>
            2 * count_nodes item)", goal_cases)
  case 1
  show ?case by simp
next
  case (2 limit depth lower ignore_dirs root path prefix is_last cs items x i item)
  then have "item \<in> set (sorted_items lower cs)"
    by (auto simp: in_set_enumerate_eq)
  from count_nodes_le_sorted_items [OF this] show ?case by simp
next
  case (3 limit depth lower ignore_dirs root path prefix is_last_item item)
  then show ?case by simp
qed

declare run_walk_item.simps [simp del]

declare run_walk_directory.simps(2) [simp del]

definition run_get_tree_structure ::
    "nat \<Rightarrow> (pystr \<Rightarrow> pystr) \<Rightarrow> path \<Rightarrow> pystr set option \<Rightarrow> listing
       \<Rightarrow> exn + pystr list \<times> file_entry list" where
  "run_get_tree_structure limit lower root_dir ignore_dirs fs =
     (let ignore_dirs = (case ignore_dirs of None \<Rightarrow> default_ignore_dirs | Some s \<Rightarrow> s);
          root = root_dir
      in run_walk_directory limit 0 lower ignore_dirs root root [] True fs)"

text \<open>
  The number of nested \<^verbatim>\<open>walk_directory\<close> generators that run at once in the walk of a
  listing: one for the listing itself, and those of the deepest directory below it
  that the walk enters.
\<close>

fun max_list :: "nat list \<Rightarrow> nat" where
  "max_list [] = 0"
| "max_list (x # xs) = max x (max_list xs)"

fun walk_depth_node :: "pystr set \<Rightarrow> fsnode \<Rightarrow> nat"
  and walk_depth :: "pystr set \<Rightarrow> listing \<Rightarrow> nat" where
  "walk_depth_node ignore_dirs (RegularFile nm rd) = 0"
| "walk_depth_node ignore_dirs (Directory nm l) =
     (if nm \<in> ignore_dirs then 0 else walk_depth ignore_dirs l)"
| "walk_depth_node ignore_dirs (Special nm) = 0"
| "walk_depth ignore_dirs PermissionDenied = 1"
| "walk_depth ignore_dirs (Entries cs) =
     Suc (max_list (map (walk_depth_node ignore_dirs) cs))"


text \<open>
  The file is opened with \<^verbatim>\<open>encoding='utf-8'\<close>: \<^verbatim>\<open>f.write\<close> raises
  \<^verbatim>\<open>UnicodeEncodeError\<close> on a string with a surrogate code point (a file name with
  bytes that are not UTF-8 is listed with such code points), and nothing of that
  string is written.
\<close>

definition utf8_encodable :: "pystr \<Rightarrow> bool" where
  "utf8_encodable s \<longleftrightarrow> list_all (\<lambda>c. c < 55296 \<or> (57343 < c \<and> c \<le> 1114111)) s"

record outcome =
  report :: "pystr list option"
  console :: "pystr list"
  raised :: "exn option"

text \<open>
  A run of \<^verbatim>\<open>main\<close>: the strings written to \<^verbatim>\<open>repo_structure.txt\<close> (\<open>None\<close> when the
  file was never opened), the messages printed, and the exception that ended the
  run, if any. Opening the output file and printing are taken to succeed.
\<close>

definition run_main :: "nat \<Rightarrow> (pystr \<Rightarrow> pystr) \<Rightarrow> listing \<Rightarrow> outcome" where
  "run_main limit lower fs =
     (let root_dir = PosixPath False [];
          messages = printed (main lower fs)
      in case run_get_tree_structure limit lower root_dir None fs of
           Inl e \<Rightarrow> \<lparr>report = None, console = take 1 messages, raised = Some e\<rparr>
         | Inr (tree_lines, info) \<Rightarrow>
             (let sorted_info = sort_reverse (\<lambda>x. fst (snd x)) info;
                  writes = tree_section tree_lines @ top_files_section sorted_info
              in if list_all utf8_encodable writes
                 then \<lparr>report = Some writes, console = messages, raised = None\<rparr>
                 else \<lparr>report = Some (takeWhile utf8_encodable writes),
                        console = take 3 messages, raised = Some UnicodeEncodeError\<rparr>))"

section \<open>Lemmas about paths\<close>

lemma is_relative_to_refl: "is_relative_to p p"
  by (simp add: is_relative_to_def)

lemma is_relative_to_joinpath:
  assumes "is_relative_to p root"
  shows "is_relative_to (joinpath p nm) root"
proof -
  from assms have t: "take (length (parts root)) (parts p) = parts root"
    and a: "is_absolute p = is_absolute root"
    by (simp_all add: is_relative_to_def)
  from t have "length (take (length (parts root)) (parts p)) = length (parts root)"
    by simp
  then have "length (parts root) \<le> length (parts p)"
    by simp
  with t a show ?thesis
    by (simp add: is_relative_to_def joinpath_def)
qed

lemma is_absolute_joinpath [simp]: "is_absolute (joinpath p nm) = is_absolute p"
  by (simp add: joinpath_def)

lemma joinpaths_Nil [simp]: "joinpaths p [] = p"
  by (simp add: joinpaths_def)

lemma joinpaths_Cons [simp]: "joinpaths p (n # ns) = joinpaths (joinpath p n) ns"
  by (simp add: joinpaths_def)

lemma joinpaths_parts: "joinpaths p ns = PosixPath (is_absolute p) (parts p @ ns)"
  by (induction ns arbitrary: p) (simp_all add: joinpath_def)

lemma take_1_join:
  "x \<noteq> [] \<Longrightarrow> take (Suc 0) (join sep (x # xs)) = [hd x]"
  by (cases x; cases xs) simp_all

lemma relative_names_not_absolute:
  assumes "ns \<noteq> []" and "valid_name (hd ns)"
  shows "\<not> isabs (str_path (PosixPath False ns))"
proof -
  obtain x xs where ns: "ns = x # xs" using assms(1) by (cases ns) auto
  with assms(2) have x: "x \<noteq> []" "hd x \<noteq> 47"
    by (auto simp: valid_name_def) (metis hd_in_set)
  then show ?thesis
    by (simp add: isabs_def str_path_def ns take_1_join ascii_def)
qed

section \<open>Lemmas about the walk\<close>

lemma set_flatten:
  "set (snd (flatten rs)) = (\<Union>r\<in>set rs. set (snd r))"
  "set (fst (flatten rs)) = (\<Union>r\<in>set rs. set (fst r))"
  by (simp_all add: flatten_def)

lemma length_sorted_items: "length (sorted_items lower cs) = length cs"
  by (simp add: sorted_items_def)

lemma set_sorted_items: "set (sorted_items lower cs) = set cs"
  by (simp add: sorted_items_def)


lemma sorted_items_single: "sorted_items lower [x] = [x]"
  by (simp add: sorted_items_def)

lemma walk_directory_Entries:
  "walk_directory lower ig root path prefix il (Entries cs) =
     walk_items lower ig root path prefix (length (sorted_items lower cs)) 0
       (sorted_items lower cs)"
  by (simp add: walk_directory.simps(2) walk_items_def Let_def)

lemma walk_items_Nil: "walk_items lower ig root path prefix n k [] = ([], [])"
  by (simp add: walk_items_def flatten_def)


lemma walk_items_Cons:
  "walk_items lower ig root path prefix n k (x # xs) =
     flatten [walk_item lower ig root path prefix (k = n - 1) x,
              walk_items lower ig root path prefix n (Suc k) xs]"
  by (simp add: walk_items_def flatten_def)

lemma walk_items_append:
  "walk_items lower ig root path prefix n k (xs @ ys) =
     flatten [walk_items lower ig root path prefix n k xs,
              walk_items lower ig root path prefix n (k + length xs) ys]"
  by (simp add: walk_items_def flatten_def enumerate_append_eq)

lemma walk_items_nth:
  "walk_items lower ig root path prefix n k items =
     flatten (map (\<lambda>i. walk_item lower ig root path prefix (k + i = n - 1) (items ! i))
                [0..<length items])"
proof -
  have "enumerate k items = map (\<lambda>i. (k + i, items ! i)) [0..<length items]"
    by (rule nth_equalityI) (simp_all add: nth_enumerate_eq)
  then show ?thesis
    by (simp add: walk_items_def comp_def)
qed

lemma walk_directory_nth:
  "walk_directory lower ig root path prefix il (Entries cs) =
     flatten (map (\<lambda>i. walk_item lower ig root path prefix (i = length cs - 1)
                          (sorted_items lower cs ! i)) [0..<length cs])"
  by (simp only: walk_directory_Entries walk_items_nth length_sorted_items add_0)

lemma walk_directory_split:
  assumes "sorted_items lower cs = front @ c # back"
  shows "walk_directory lower ig root path prefix il (Entries cs) =
     flatten [walk_items lower ig root path prefix (length cs) 0 front,
              walk_item lower ig root path prefix (back = []) c,
              walk_items lower ig root path prefix (length cs) (Suc (length front)) back]"
proof -
  have n: "length cs = length front + Suc (length back)"
    using arg_cong [OF assms, of length] by (simp add: length_sorted_items)
  have "(length front = length cs - 1) = (back = [])"
    using n by auto
  then show ?thesis
    by (simp add: walk_directory_Entries assms walk_items_append
        walk_items_Cons flatten_def n)
qed

lemma walk_item_ignored:
  "name item \<in> ig \<Longrightarrow> walk_item lower ig root path prefix b item = ([], [])"
  by (simp add: walk_item.simps Let_def)

lemma walk_item_Special:
  "walk_item lower ig root path prefix b (Special nm) = ([], [])"
  by (simp add: walk_item.simps Let_def)

lemma walk_item_RegularFile:
  "nm \<notin> ig \<Longrightarrow> walk_item lower ig root path prefix b (RegularFile nm rd) =
     ([prefix @ (if b then [9492, 9472, 9472, 32] else [9500, 9472, 9472, 32]) @ nm @
         ascii '' ('' @ format_thousands (count_chars rd) @ ascii '')''],
      [(str_path (joinpath path nm), count_chars rd,
        str_path (relative_to (joinpath path nm) root))])"
  by (simp add: walk_item.simps Let_def)

lemma walk_item_Directory:
  "nm \<notin> ig \<Longrightarrow> walk_item lower ig root path prefix b (Directory nm l) =
     ((prefix @ (if b then [9492, 9472, 9472, 32] else [9500, 9472, 9472, 32]) @ nm @
         ascii ''/'') #
        fst (walk_directory lower ig root (joinpath path nm)
               (prefix @ (if b then [32, 32, 32, 32] else [9474, 32, 32, 32])) b l),
      snd (walk_directory lower ig root (joinpath path nm)
               (prefix @ (if b then [32, 32, 32, 32] else [9474, 32, 32, 32])) b l))"
  by (simp add: walk_item.simps Let_def)



lemma main_file_info:
  "file_info (main lower fs) =
     sort_reverse (\<lambda>x. fst (snd x)) (snd (get_tree_structure lower (PosixPath False []) None fs))"
  by (simp add: main_def Let_def split: prod.splits)

lemma set_sort_reverse: "set (sort_reverse key xs) = set xs"
  by (simp add: sort_reverse_def)


section \<open>Lemmas about the run\<close>

lemma max_list_le: "max_list xs \<le> n \<longleftrightarrow> (\<forall>x\<in>set xs. x \<le> n)"
  by (induction xs) auto

lemma ball_enumerate:
  "(\<forall>x\<in>set (enumerate k xs). Q (snd x)) \<longleftrightarrow> (\<forall>y\<in>set xs. Q y)"
proof -
  have "snd ` set (enumerate k xs) = set xs"
    using set_map [of snd "enumerate k xs"] by simp
  then have "(\<forall>y\<in>set xs. Q y) \<longleftrightarrow> (\<forall>y\<in>snd ` set (enumerate k xs). Q y)"
    by (rule arg_cong [where f = "\<lambda>A. \<forall>y\<in>A. Q y", symmetric])
  then show ?thesis by blast
qed

lemma collect_map:
  assumes "\<And>x. x \<in> set xs \<Longrightarrow> f x = (if P x then Inr (g x) else Inl RecursionError)"
  shows "collect (map f xs) =
           (if \<forall>x\<in>set xs. P x then Inr (flatten (map g xs)) else Inl RecursionError)"
  using assms
proof (induction xs)
  case Nil
  show ?case by (simp add: flatten_def)
next
  case (Cons x xs)
  have fx: "f x = (if P x then Inr (g x) else Inl RecursionError)"
    using Cons.prems by simp
  have rest: "collect (map f xs) =
           (if \<forall>x\<in>set xs. P x then Inr (flatten (map g xs)) else Inl RecursionError)"
    using Cons by simp
  show ?case
    by (simp add: fx rest flatten_def)
qed

lemma run_walk_refines:
  "(\<forall>depth path prefix b. depth < limit \<longrightarrow>
      run_walk_item limit depth lower ig root path prefix b item =
        (if depth + walk_depth_node ig item < limit
         then Inr (walk_item lower ig root path prefix b item) else Inl RecursionError))"
  "(\<forall>depth path prefix il.
      run_walk_directory limit depth lower ig root path prefix il l =
        (if depth + walk_depth ig l \<le> limit
         then Inr (walk_directory lower ig root path prefix il l) else Inl RecursionError))"
proof (induction item and l)
  case (RegularFile nm rd)
  show ?case by (simp add: run_walk_item.simps walk_item.simps Let_def)
next
  case (Directory nm l)
  show ?case
  proof (cases "nm \<in> ig")
    case True
    then show ?thesis by (simp add: run_walk_item.simps walk_item.simps Let_def)
  next
    case False
    then show ?thesis
      using Directory
      by (auto simp add: run_walk_item.simps walk_item.simps Let_def)
  qed
next
  case (Special nm)
  show ?case by (simp add: run_walk_item.simps walk_item.simps Let_def)
next
  case PermissionDenied
  show ?case by auto
next
  case (Entries cs)
  show ?case
  proof (intro allI)
    fix depth path prefix il
    let ?items = "sorted_items lower cs"
    let ?f = "\<lambda>(i, item). run_walk_item limit depth lower ig root path prefix
                 (i = length ?items - 1) item"
    let ?g = "\<lambda>(i, item). walk_item lower ig root path prefix (i = length ?items - 1) item"
    let ?P = "\<lambda>x :: nat \<times> fsnode. depth + walk_depth_node ig (snd x) < limit"
    show "run_walk_directory limit depth lower ig root path prefix il (Entries cs) =
        (if depth + walk_depth ig (Entries cs) \<le> limit
         then Inr (walk_directory lower ig root path prefix il (Entries cs))
         else Inl RecursionError)"
    proof (cases "limit \<le> depth")
      case True
      then show ?thesis by (simp add: run_walk_directory.simps(2))
    next
      case False
      then have d: "depth < limit" by simp
      have each: "?f x = (if ?P x then Inr (?g x) else Inl RecursionError)"
        if "x \<in> set (enumerate 0 ?items)" for x
      proof -
        obtain i item where x: "x = (i, item)" by (cases x)
        with that have "item \<in> set (sorted_items lower cs)"
          by (auto simp: in_set_enumerate_eq)
        then have "item \<in> set cs"
          by (simp add: set_sorted_items)
        with Entries d x show ?thesis by simp
      qed
      have all: "(\<forall>x\<in>set (enumerate 0 ?items). ?P x) \<longleftrightarrow>
                 depth + walk_depth ig (Entries cs) \<le> limit"
      proof -
        have "(\<forall>x\<in>set (enumerate 0 ?items). ?P x) \<longleftrightarrow>
              (\<forall>item\<in>set ?items. depth + walk_depth_node ig item < limit)"
          by (rule ball_enumerate)
        also have "\<dots> \<longleftrightarrow> (\<forall>item\<in>set cs. walk_depth_node ig item \<le> limit - Suc depth)"
          using d by (auto simp: set_sorted_items)
        also have "\<dots> \<longleftrightarrow> max_list (map (walk_depth_node ig) cs) \<le> limit - Suc depth"
          by (simp add: max_list_le)
        also have "\<dots> \<longleftrightarrow> depth + walk_depth ig (Entries cs) \<le> limit"
          using d by auto
        finally show ?thesis .
      qed
      have "run_walk_directory limit depth lower ig root path prefix il (Entries cs) =
              collect (map ?f (enumerate 0 ?items))"
        using False by (simp add: run_walk_directory.simps(2) Let_def)
      also have "\<dots> = (if \<forall>x\<in>set (enumerate 0 ?items). ?P x
                        then Inr (flatten (map ?g (enumerate 0 ?items)))
                        else Inl RecursionError)"
        by (rule collect_map) (rule each)
      also have "flatten (map ?g (enumerate 0 ?items)) =
                   walk_directory lower ig root path prefix il (Entries cs)"
        by (simp add: walk_directory.simps(2) Let_def)
      finally show ?thesis by (simp only: all)
    qed
  qed
qed

lemma run_get_tree_structure_refines:
  "run_get_tree_structure limit lower root_dir ignore_dirs fs =
     (if walk_depth (case ignore_dirs of None \<Rightarrow> default_ignore_dirs | Some s \<Rightarrow> s) fs \<le> limit
      then Inr (get_tree_structure lower root_dir ignore_dirs fs)
      else Inl RecursionError)"
  using run_walk_refines(2) [of limit lower _ root_dir fs]
  by (simp add: run_get_tree_structure_def get_tree_structure_def Let_def)


section \<open>Evaluation on concrete inputs\<close>

lemma decimal_0: "decimal 0 = [48]"
  by (simp add: decimal.simps)

lemma format_thousands_small: "n < 10 \<Longrightarrow> format_thousands n = [48 + n]"
  by (simp add: format_thousands.simps decimal.simps)

lemma format_thousands_2: "format_thousands (Suc (Suc 0)) = [50]"
  by (simp add: format_thousands.simps decimal.simps)

lemma app_not_ignored: "ascii ''app'' \<notin> default_ignore_dirs"
  by (simp add: default_ignore_dirs_def ascii_def)

lemma build_ignored: "ascii ''build'' \<in> default_ignore_dirs"
  by (simp add: default_ignore_dirs_def)

lemma a_txt_not_ignored: "ascii ''a.txt'' \<notin> default_ignore_dirs"
  by (simp add: default_ignore_dirs_def ascii_def)

lemma b_txt_not_ignored: "ascii ''b.txt'' \<notin> default_ignore_dirs"
  by (simp add: default_ignore_dirs_def ascii_def)


lemma secret_not_ignored: "ascii ''secret'' \<notin> default_ignore_dirs"
  by (simp add: default_ignore_dirs_def ascii_def)

lemma locked_not_ignored: "ascii ''locked'' \<notin> default_ignore_dirs"
  by (simp add: default_ignore_dirs_def ascii_def)

lemma sub_not_ignored: "ascii ''sub'' \<notin> default_ignore_dirs"
  by (simp add: default_ignore_dirs_def ascii_def)

lemma x_py_not_ignored: "ascii ''x.py'' \<notin> default_ignore_dirs"
  by (simp add: default_ignore_dirs_def ascii_def)

lemma sorted_app_build:
  "sorted_items ascii_lower [Directory (ascii ''build'') l1, Directory (ascii ''app'') l2]
     = [Directory (ascii ''app'') l2, Directory (ascii ''build'') l1]"
  by (simp add: sorted_items_def ascii_lower_def ascii_def)

lemma sorted_secret_a_txt:
  "sorted_items ascii_lower
     [RegularFile (ascii ''a.txt'') rd, Directory (ascii ''secret'') l] =
   [Directory (ascii ''secret'') l, RegularFile (ascii ''a.txt'') rd]"
  by (simp add: sorted_items_def)


lemma file_info_a_txt:
  "file_info (main ascii_lower (Entries [RegularFile (ascii ''a.txt'') (Inr (ascii ''hi''))])) =
     [(ascii ''a.txt'', 2, ascii ''a.txt'')]"
  by (simp add: main_file_info get_tree_structure_def walk_directory_Entries sorted_items_def
      walk_items_Cons walk_items_Nil walk_item_RegularFile a_txt_not_ignored flatten_def
      sort_reverse_def)
     (simp add: ascii_def str_path_def joinpath_def relative_to_def)


section \<open>Connectors and the position in the listing\<close>

text \<open>
  Claim C1, at the failing input. The root holds the directory \<^verbatim>\<open>app\<close> with one file
  and the directory \<^verbatim>\<open>build\<close>, whose name is in the ignore set and which comes last
  in the sorted listing. \<^verbatim>\<open>app\<close> is the only child listed, and it is rendered with
  the connector of a non-last child (9500, 9472, 9472, 32) and its file behind the
  continuation bar (9474, 32, 32, 32): \<^verbatim>\<open>is_last_item\<close> is computed from the position
  in the sorted listing before the ignore set is tested. Without \<^verbatim>\<open>build\<close> the same
  child gets the last connector (9492, 9472, 9472, 32) and blanks.
\<close>

theorem last_listed_child_connector:
  "fst (get_tree_structure ascii_lower (PosixPath False []) None
          (Entries [Directory (ascii ''build'') (Entries []),
                    Directory (ascii ''app'')
                      (Entries [RegularFile (ascii ''x.py'') (Inr (ascii ''hi''))])])) =
     [[9500, 9472, 9472, 32] @ ascii ''app/'',
      [9474, 32, 32, 32] @ [9492, 9472, 9472, 32] @ ascii ''x.py (2)''] \<and>
   fst (get_tree_structure ascii_lower (PosixPath False []) None
          (Entries [Directory (ascii ''app'')
                      (Entries [RegularFile (ascii ''x.py'') (Inr (ascii ''hi''))])])) =
     [[9492, 9472, 9472, 32] @ ascii ''app/'',
      [32, 32, 32, 32] @ [9492, 9472, 9472, 32] @ ascii ''x.py (2)'']"
  by (simp add: get_tree_structure_def Let_def walk_directory_Entries sorted_app_build
      sorted_items_single walk_items_Cons walk_items_Nil walk_item_Directory
      walk_item_RegularFile walk_item_ignored app_not_ignored build_ignored x_py_not_ignored
      flatten_def)
     (simp add: ascii_def format_thousands_2)

section \<open>Directories that cannot be listed\<close>

text \<open>
  Claim C2 as stated fails: a directory whose listing is denied has an entry among the
  tree lines.
\<close>

theorem denied_directory_counterexample:
  "fst (get_tree_structure ascii_lower (PosixPath False []) None
          (Entries [Directory (ascii ''secret'') PermissionDenied])) =
     [[9492, 9472, 9472, 32] @ ascii ''secret/'']"
  by (simp add: get_tree_structure_def walk_directory_Entries sorted_items_def
      walk_items_Cons walk_items_Nil walk_item_Directory secret_not_ignored flatten_def)
     (simp add: ascii_def)

text \<open>
  Claim C2, as amended. A directory whose listing raises \<^verbatim>\<open>PermissionError\<close> keeps its
  own line, which the loop of its parent yields before descending; the walk of the
  directory itself yields no line and no entry and raises nothing, and the loop goes
  on with the siblings after it.
\<close>

theorem denied_directory_lists_nothing:
  assumes "sorted_items lower cs = front @ Directory nm PermissionDenied # back"
    and "nm \<notin> ignore_dirs"
  shows "walk_directory lower ignore_dirs root (joinpath path nm) next_prefix b PermissionDenied
           = ([], []) \<and>
         walk_directory lower ignore_dirs root path prefix is_last (Entries cs) =
           flatten
             [walk_items lower ignore_dirs root path prefix (length cs) 0 front,
              ([prefix @ (if back = [] then [9492, 9472, 9472, 32]
                          else [9500, 9472, 9472, 32]) @ nm @ ascii ''/''], []),
              walk_items lower ignore_dirs root path prefix (length cs) (Suc (length front))
                back]"
  using assms(2)
  by (simp add: walk_directory_split [OF assms(1)] walk_item_Directory)

theorem denied_directory_lists_nothing_witness:
  "sorted_items ascii_lower
     [RegularFile (ascii ''a.txt'') (Inr (ascii ''hi'')),
      Directory (ascii ''secret'') PermissionDenied] =
     [] @ Directory (ascii ''secret'') PermissionDenied #
       [RegularFile (ascii ''a.txt'') (Inr (ascii ''hi''))] \<and>
   ascii ''secret'' \<notin> default_ignore_dirs \<and>
   walk_directory ascii_lower default_ignore_dirs (PosixPath False []) (PosixPath False [])
     [] True
     (Entries [RegularFile (ascii ''a.txt'') (Inr (ascii ''hi'')),
               Directory (ascii ''secret'') PermissionDenied]) =
     ([[9500, 9472, 9472, 32] @ ascii ''secret/'',
       [9492, 9472, 9472, 32] @ ascii ''a.txt (2)''],
      [(ascii ''a.txt'', 2, ascii ''a.txt'')])"
proof -
  have s: "sorted_items ascii_lower
     [RegularFile (ascii ''a.txt'') (Inr (ascii ''hi'')),
      Directory (ascii ''secret'') PermissionDenied] =
     [] @ Directory (ascii ''secret'') PermissionDenied #
       [RegularFile (ascii ''a.txt'') (Inr (ascii ''hi''))]"
    by (simp add: sorted_secret_a_txt)
  note t = denied_directory_lists_nothing [OF s secret_not_ignored,
      where root = "PosixPath False []" and path = "PosixPath False []" and prefix = "[]"
        and is_last = True]
  have "walk_directory ascii_lower default_ignore_dirs (PosixPath False []) (PosixPath False [])
     [] True
     (Entries [RegularFile (ascii ''a.txt'') (Inr (ascii ''hi'')),
               Directory (ascii ''secret'') PermissionDenied]) =
     ([[9500, 9472, 9472, 32] @ ascii ''secret/'',
       [9492, 9472, 9472, 32] @ ascii ''a.txt (2)''],
      [(ascii ''a.txt'', 2, ascii ''a.txt'')])"
    using t
    by (simp add: walk_items_Nil walk_items_Cons walk_item_RegularFile a_txt_not_ignored
        flatten_def format_thousands_small)
       (simp add: ascii_def str_path_def joinpath_def relative_to_def format_thousands_2)
  with s secret_not_ignored show ?thesis by (intro conjI)
qed

section \<open>The paths of the top-files section\<close>

lemma ex_nth_iff: "(\<exists>i<length xs. Q (xs ! i)) \<longleftrightarrow> (\<exists>c\<in>set xs. Q c)"
  by (metis in_set_conv_nth)

lemma walk_entries_files:
  "(\<forall>path prefix b e.
      e \<in> set (snd (walk_item lower ig root path prefix b item)) \<longleftrightarrow>
      (\<exists>ns rd. file_at_node ig item ns rd \<and>
         e = (str_path (joinpaths path ns), count_chars rd,
              str_path (relative_to (joinpaths path ns) root))))"
  "(\<forall>path prefix il e.
      e \<in> set (snd (walk_directory lower ig root path prefix il l)) \<longleftrightarrow>
      (\<exists>ns rd. file_at ig l ns rd \<and>
         e = (str_path (joinpaths path ns), count_chars rd,
              str_path (relative_to (joinpaths path ns) root))))"
proof (induction item and l)
  case (RegularFile nm rd')
  show ?case
    by (cases "nm \<in> ig") (auto simp: walk_item_ignored walk_item_RegularFile)
next
  case (Directory nm l)
  show ?case
  proof (cases "nm \<in> ig")
    case True
    then show ?thesis by (simp add: walk_item_ignored)
  next
    case False
    show ?thesis
    proof (intro allI)
      fix path prefix b e
      let ?p = "joinpath path nm"
      have h: "snd (walk_item lower ig root path prefix b (Directory nm l)) =
            snd (walk_directory lower ig root ?p
                   (prefix @ (if b then [32, 32, 32, 32] else [9474, 32, 32, 32])) b l)"
        using False by (simp add: walk_item_Directory)
      have "e \<in> set (snd (walk_item lower ig root path prefix b (Directory nm l))) \<longleftrightarrow>
            (\<exists>ns rd. file_at ig l ns rd \<and>
               e = (str_path (joinpaths ?p ns), count_chars rd,
                    str_path (relative_to (joinpaths ?p ns) root)))"
        unfolding h by (rule Directory [rule_format])
      also have "\<dots> \<longleftrightarrow>
            (\<exists>ns rd. file_at_node ig (Directory nm l) ns rd \<and>
               e = (str_path (joinpaths path ns), count_chars rd,
                    str_path (relative_to (joinpaths path ns) root)))"
        (is "?L \<longleftrightarrow> ?R")
      proof
        assume ?L
        then obtain ns rd where "file_at ig l ns rd"
          and "e = (str_path (joinpaths ?p ns), count_chars rd,
                    str_path (relative_to (joinpaths ?p ns) root))"
          by blast
        then have "file_at_node ig (Directory nm l) (nm # ns) rd \<and>
               e = (str_path (joinpaths path (nm # ns)), count_chars rd,
                    str_path (relative_to (joinpaths path (nm # ns)) root))"
          using False by simp
        then show ?R by blast
      next
        assume ?R
        then obtain ns rd where f: "file_at_node ig (Directory nm l) ns rd"
          and e: "e = (str_path (joinpaths path ns), count_chars rd,
                    str_path (relative_to (joinpaths path ns) root))"
          by blast
        from f obtain ns' where "ns = nm # ns'" and "file_at ig l ns' rd"
          by (cases ns) auto
        with e show ?L by auto
      qed
      finally show "e \<in> set (snd (walk_item lower ig root path prefix b (Directory nm l))) \<longleftrightarrow>
            (\<exists>ns rd. file_at_node ig (Directory nm l) ns rd \<and>
               e = (str_path (joinpaths path ns), count_chars rd,
                    str_path (relative_to (joinpaths path ns) root)))" .
    qed
  qed
next
  case (Special nm)
  show ?case by (simp add: walk_item_Special)
next
  case PermissionDenied
  show ?case by simp
next
  case (Entries cs)
  show ?case
  proof (intro allI)
    fix path prefix il e
    let ?E = "\<lambda>ns rd. (str_path (joinpaths path ns), count_chars rd,
                    str_path (relative_to (joinpaths path ns) root))"
    let ?items = "sorted_items lower cs"
    have "e \<in> set (snd (walk_directory lower ig root path prefix il (Entries cs))) \<longleftrightarrow>
          (\<exists>i<length cs. e \<in> set (snd (walk_item lower ig root path prefix
                (i = length cs - 1) (?items ! i))))"
      by (auto simp: walk_directory_nth set_flatten)
    also have "\<dots> \<longleftrightarrow> (\<exists>i<length cs. \<exists>ns rd. file_at_node ig (?items ! i) ns rd \<and> e = ?E ns rd)"
    proof (rule ex_cong1, rule conj_cong [OF refl])
      fix i assume "i < length cs"
      then have "?items ! i \<in> set cs"
        using nth_mem [of i ?items] by (simp add: length_sorted_items set_sorted_items)
      then show "e \<in> set (snd (walk_item lower ig root path prefix
                (i = length cs - 1) (?items ! i))) \<longleftrightarrow>
            (\<exists>ns rd. file_at_node ig (?items ! i) ns rd \<and> e = ?E ns rd)"
        by (rule Entries [rule_format])
    qed
    also have "\<dots> \<longleftrightarrow> (\<exists>c\<in>set ?items. \<exists>ns rd. file_at_node ig c ns rd \<and> e = ?E ns rd)"
      using ex_nth_iff [of ?items "\<lambda>c. \<exists>ns rd. file_at_node ig c ns rd \<and> e = ?E ns rd"]
      by (simp add: length_sorted_items)
    also have "\<dots> \<longleftrightarrow> (\<exists>ns rd. file_at ig (Entries cs) ns rd \<and> e = ?E ns rd)"
      by (auto simp: set_sorted_items list_ex_iff)
    finally show "e \<in> set (snd (walk_directory lower ig root path prefix il (Entries cs))) \<longleftrightarrow>
          (\<exists>ns rd. file_at ig (Entries cs) ns rd \<and> e = ?E ns rd)" .
  qed
qed

lemma file_at_valid_names:
  "(\<forall>ns rd. valid_node item \<longrightarrow> file_at_node ig item ns rd \<longrightarrow>
      ns \<noteq> [] \<and> valid_name (hd ns))"
  "(\<forall>ns rd. valid_listing l \<longrightarrow> file_at ig l ns rd \<longrightarrow> ns \<noteq> [] \<and> valid_name (hd ns))"
proof (induction item and l)
  case (RegularFile nm rd')
  show ?case by auto
next
  case (Directory nm l)
  show ?case
  proof (intro allI impI)
    fix ns rd
    assume "valid_node (Directory nm l)" and "file_at_node ig (Directory nm l) ns rd"
    then show "ns \<noteq> [] \<and> valid_name (hd ns)"
      by (cases ns) auto
  qed
next
  case (Special nm)
  show ?case by simp
next
  case PermissionDenied
  show ?case by simp
next
  case (Entries cs)
  then show ?case by (auto simp: list_ex_iff list_all_iff)
qed

lemma run_main_report:
  "raised (run_main limit lower fs) = None \<longrightarrow>
   report (run_main limit lower fs) =
     Some (tree_section (fst (get_tree_structure lower (PosixPath False []) None fs)) @
           top_files_section (file_info (main lower fs)))"
  by (cases "get_tree_structure lower (PosixPath False []) None fs")
     (simp add: run_main_def run_get_tree_structure_refines main_file_info Let_def)

text \<open>
  Claim C3 as stated fails: the path of a file in the root is rendered as its bare
  name, which is not an absolute path.
\<close>

theorem top_files_absolute_counterexample:
  "file_info (main ascii_lower (Entries [RegularFile (ascii ''a.txt'') (Inr (ascii ''hi''))])) =
     [(ascii ''a.txt'', 2, ascii ''a.txt'')] \<and>
   drop 3 (top_files_section
     (file_info (main ascii_lower (Entries [RegularFile (ascii ''a.txt'') (Inr (ascii ''hi''))]))))
     = [ascii ''a.txt (2)'' @ newline] \<and>
   \<not> isabs (ascii ''a.txt'')"
  by (simp add: file_info_a_txt)
     (simp add: top_files_section_def format_thousands.simps decimal.simps isabs_def ascii_def)

text \<open>
  Claim C3, as amended. After its three header lines the top-files section has one
  line for each of the first 100 entries: the entry's first component followed by the
  count with thousands separators in parentheses. The entries of \<^verbatim>\<open>main\<close> are those of
  the regular files that the names \<open>ns\<close> lead to from the root without an ignored
  name, and the first component is \<^verbatim>\<open>str(item)\<close> for the root \<^verbatim>\<open>.\<close> joined with
  these names. It equals the third component, the path relative to the root, and,
  file names being without a slash, it is not an absolute path. A run that raises no
  exception writes the tree section and then this section.
\<close>

theorem top_files_render_walk_paths:
  assumes "valid_listing fs"
  shows "drop 3 (top_files_section es) =
     map (\<lambda>(full_path, char_count, relative_path).
            full_path @ ascii '' ('' @ format_thousands char_count @ ascii '')'' @ newline)
       (take 100 es) \<and>
   (e \<in> set (file_info (main lower fs)) \<longleftrightarrow>
      (\<exists>ns rd. file_at default_ignore_dirs fs ns rd \<and>
         e = (str_path (joinpaths (PosixPath False []) ns), count_chars rd,
              str_path (relative_to (joinpaths (PosixPath False []) ns) (PosixPath False []))))) \<and>
   (\<forall>e\<in>set (file_info (main lower fs)). fst e = snd (snd e) \<and> \<not> isabs (fst e)) \<and>
   (raised (run_main limit lower fs) = None \<longrightarrow>
      report (run_main limit lower fs) =
        Some (tree_section (fst (get_tree_structure lower (PosixPath False []) None fs)) @
              top_files_section (file_info (main lower fs))))"
proof -
  let ?r = "PosixPath False []"
  have c2: "e \<in> set (file_info (main lower fs)) \<longleftrightarrow>
      (\<exists>ns rd. file_at default_ignore_dirs fs ns rd \<and>
         e = (str_path (joinpaths ?r ns), count_chars rd,
              str_path (relative_to (joinpaths ?r ns) ?r)))" for e
    using walk_entries_files(2) [rule_format, of e lower default_ignore_dirs ?r ?r "[]" True fs]
    by (simp add: main_file_info set_sort_reverse get_tree_structure_def Let_def)
  have c3: "fst e = snd (snd e) \<and> \<not> isabs (fst e)"
    if "e \<in> set (file_info (main lower fs))" for e
  proof -
    from that c2 obtain ns rd where f: "file_at default_ignore_dirs fs ns rd"
      and e: "e = (str_path (joinpaths ?r ns), count_chars rd,
              str_path (relative_to (joinpaths ?r ns) ?r))"
      by blast
    from f assms have ns: "ns \<noteq> []" "valid_name (hd ns)"
      using file_at_valid_names(2) [rule_format, of fs default_ignore_dirs ns rd] by simp_all
    have j: "joinpaths ?r ns = PosixPath False ns"
      by (simp add: joinpaths_parts)
    have "relative_to (PosixPath False ns) ?r = PosixPath False ns"
      by (simp add: relative_to_def)
    with e j relative_names_not_absolute [OF ns] show ?thesis by simp
  qed
  have c1: "drop 3 (top_files_section es) =
     map (\<lambda>(full_path, char_count, relative_path).
            full_path @ ascii '' ('' @ format_thousands char_count @ ascii '')'' @ newline)
       (take 100 es)"
    by (simp add: top_files_section_def)
  from c3 have c3': "\<forall>e\<in>set (file_info (main lower fs)). fst e = snd (snd e) \<and> \<not> isabs (fst e)"
    by blast
  from c1 c2 c3' run_main_report show ?thesis by (intro conjI)
qed

theorem top_files_render_walk_paths_witness:
  "valid_listing
     (Entries [Directory (ascii ''sub'')
                 (Entries [RegularFile (ascii ''b.txt'') (Inr (ascii ''hi''))])]) \<and>
   (ascii ''sub/b.txt'', 2, ascii ''sub/b.txt'')
     \<in> set (file_info (main ascii_lower
          (Entries [Directory (ascii ''sub'')
                      (Entries [RegularFile (ascii ''b.txt'') (Inr (ascii ''hi''))])]))) \<and>
   \<not> isabs (ascii ''sub/b.txt'')"
proof -
  let ?fs = "Entries [Directory (ascii ''sub'')
                 (Entries [RegularFile (ascii ''b.txt'') (Inr (ascii ''hi''))])]"
  let ?e = "(ascii ''sub/b.txt'', 2 :: nat, ascii ''sub/b.txt'')"
  have v: "valid_listing ?fs"
    by (simp add: valid_name_def ascii_def)
  note t = top_files_render_walk_paths [OF v, where lower = ascii_lower and e = ?e]
  have f: "file_at default_ignore_dirs ?fs [ascii ''sub'', ascii ''b.txt''] (Inr (ascii ''hi''))"
    by (simp add: sub_not_ignored b_txt_not_ignored)
  have p: "?e = (str_path (joinpaths (PosixPath False []) [ascii ''sub'', ascii ''b.txt'']),
                 count_chars (Inr (ascii ''hi'')),
                 str_path (relative_to (joinpaths (PosixPath False [])
                    [ascii ''sub'', ascii ''b.txt'']) (PosixPath False [])))"
    by (simp add: joinpaths_parts str_path_def relative_to_def ascii_def)
  from t f p have m: "?e \<in> set (file_info (main ascii_lower ?fs))"
    by blast
  with t have "\<not> isabs (fst ?e)"
    by blast
  with v m show ?thesis by simp
qed

section \<open>Ignored names\<close>

lemma insort_key_map:
  "insort_key f (g x) (map g xs) = map g (insort_key (\<lambda>y. f (g y)) x xs)"
  by (induction xs) simp_all

lemma sort_key_map:
  "sort_key f (map g xs) = map g (sort_key (\<lambda>y. f (g y)) xs)"
  by (induction xs) (simp_all add: insort_key_map)

lemma name_prune [simp]: "name (prune ig x) = name x"
  by (cases x) simp_all

lemma is_file_prune [simp]: "is_file (prune ig x) = is_file x"
  by (cases x) simp_all

lemma sorted_items_prune:
  "sorted_items lower (map (prune ig) cs) = map (prune ig) (sorted_items lower cs)"
  by (simp add: sorted_items_def sort_key_map)

lemma walk_prune:
  "(\<forall>path prefix b. walk_item lower ig root path prefix b (prune ig item) =
        walk_item lower ig root path prefix b item)"
  "(\<forall>path prefix il. walk_directory lower ig root path prefix il (prune_listing ig l) =
        walk_directory lower ig root path prefix il l)"
proof (induction item and l)
  case (RegularFile nm rd)
  show ?case by simp
next
  case (Directory nm l)
  show ?case
  proof (cases "nm \<in> ig")
    case True
    then show ?thesis by (simp add: walk_item_ignored)
  next
    case False
    then show ?thesis using Directory by (simp add: walk_item_Directory)
  qed
next
  case (Special nm)
  show ?case by simp
next
  case PermissionDenied
  show ?case by simp
next
  case (Entries cs)
  show ?case
  proof (intro allI)
    fix path prefix il
    let ?items = "sorted_items lower cs"
    have "map (\<lambda>i. walk_item lower ig root path prefix (i = length cs - 1)
                 (map (prune ig) ?items ! i)) [0..<length cs] =
          map (\<lambda>i. walk_item lower ig root path prefix (i = length cs - 1) (?items ! i))
            [0..<length cs]"
    proof (rule map_cong [OF refl])
      fix i assume "i \<in> set [0..<length cs]"
      then have i: "i < length ?items" by (simp add: length_sorted_items)
      then have "?items ! i \<in> set cs"
        using nth_mem [OF i] by (simp add: set_sorted_items)
      with Entries i show "walk_item lower ig root path prefix (i = length cs - 1)
                 (map (prune ig) ?items ! i) =
            walk_item lower ig root path prefix (i = length cs - 1) (?items ! i)"
        by simp
    qed
    then show "walk_directory lower ig root path prefix il (prune_listing ig (Entries cs)) =
          walk_directory lower ig root path prefix il (Entries cs)"
      unfolding prune_listing.simps walk_directory_nth sorted_items_prune length_map
      by (rule arg_cong)
  qed
qed

text \<open>
  Claim C4. At every depth (for every path and prefix) the loop body yields no line
  and no entry for a child whose name is in the ignore set, and the walk does not
  look below such a child: emptying every ignored directory, at every depth, leaves
  the result of the walk unchanged.
\<close>

theorem ignored_child_skipped:
  assumes "name item \<in> ignore_dirs"
  shows "walk_item lower ignore_dirs root path prefix b item = ([], []) \<and>
         walk_directory lower ignore_dirs root path prefix is_last l =
           walk_directory lower ignore_dirs root path prefix is_last
             (prune_listing ignore_dirs l)"
  using assms walk_prune(2) [of lower ignore_dirs root l]
  by (simp add: walk_item_ignored)

theorem ignored_child_skipped_witness:
  "name (Directory (ascii ''build'') (Entries [RegularFile (ascii ''a.txt'') (Inr [])]))
     \<in> default_ignore_dirs \<and>
   walk_item ascii_lower default_ignore_dirs (PosixPath False []) (PosixPath False []) [] True
     (Directory (ascii ''build'') (Entries [RegularFile (ascii ''a.txt'') (Inr [])])) = ([], []) \<and>
   walk_directory ascii_lower default_ignore_dirs (PosixPath False []) (PosixPath False []) []
     True (Entries [Directory (ascii ''build'') (Entries [RegularFile (ascii ''a.txt'') (Inr [])])])
   = walk_directory ascii_lower default_ignore_dirs (PosixPath False []) (PosixPath False []) []
     True (Entries [Directory (ascii ''build'') (Entries [])])"
proof -
  have h: "name (Directory (ascii ''build'') (Entries [RegularFile (ascii ''a.txt'') (Inr [])]))
     \<in> default_ignore_dirs"
    by (simp add: build_ignored)
  from ignored_child_skipped [OF h, where lower = ascii_lower and root = "PosixPath False []"
      and path = "PosixPath False []" and prefix = "[]" and is_last = True and b = True
      and l = "Entries [Directory (ascii ''build'') (Entries [RegularFile (ascii ''a.txt'') (Inr [])])]"]
    h build_ignored
  show ?thesis by simp
qed

section \<open>Unreadable files\<close>

text \<open>
  Claim C5. \<open>count_chars\<close> is 0 on a file whose opening or reading raises, and a
  directory listing that holds such a file under a name that is not ignored yields
  its entry, with count 0, and its line, with \<^verbatim>\<open>(0)\<close>.
\<close>

theorem unreadable_file_counts_zero:
  assumes "RegularFile nm (Inl e) \<in> set cs" and "nm \<notin> ignore_dirs"
  shows "count_chars (Inl e) = 0 \<and>
         (str_path (joinpath path nm), 0, str_path (relative_to (joinpath path nm) root))
           \<in> set (snd (walk_directory lower ignore_dirs root path prefix is_last (Entries cs))) \<and>
         (prefix @ [9492, 9472, 9472, 32] @ nm @ ascii '' (0)''
            \<in> set (fst (walk_directory lower ignore_dirs root path prefix is_last (Entries cs))) \<or>
          prefix @ [9500, 9472, 9472, 32] @ nm @ ascii '' (0)''
            \<in> set (fst (walk_directory lower ignore_dirs root path prefix is_last (Entries cs))))"
proof -
  have "RegularFile nm (Inl e) \<in> set (sorted_items lower cs)"
    using assms(1) by (simp add: set_sorted_items)
  then obtain xs ys where
    s: "sorted_items lower cs = xs @ RegularFile nm (Inl e) # ys"
    by (auto simp: in_set_conv_decomp)
  have z: "format_thousands 0 = ascii ''0''"
    by (simp add: format_thousands.simps decimal.simps ascii_def)
  show ?thesis
    using assms(2)
    by (simp add: walk_directory_split [OF s] walk_item_RegularFile flatten_def z ascii_def)
qed

theorem unreadable_file_counts_zero_witness:
  "RegularFile (ascii ''locked'') (Inl PermissionError)
     \<in> set [RegularFile (ascii ''locked'') (Inl PermissionError)] \<and>
   ascii ''locked'' \<notin> default_ignore_dirs \<and>
   count_chars (Inl PermissionError) = 0 \<and>
   (ascii ''locked'', 0, ascii ''locked'')
     \<in> set (snd (walk_directory ascii_lower default_ignore_dirs (PosixPath False [])
                   (PosixPath False []) [] True
                   (Entries [RegularFile (ascii ''locked'') (Inl PermissionError)])))"
proof -
  have h: "RegularFile (ascii ''locked'') (Inl PermissionError)
     \<in> set [RegularFile (ascii ''locked'') (Inl PermissionError)]" by simp
  have p: "str_path (joinpath (PosixPath False []) (ascii ''locked'')) = ascii ''locked''"
    "str_path (relative_to (joinpath (PosixPath False []) (ascii ''locked'')) (PosixPath False []))
      = ascii ''locked''"
    by (simp_all add: str_path_def joinpath_def relative_to_def)
  from unreadable_file_counts_zero [OF h locked_not_ignored, where lower = ascii_lower
      and root = "PosixPath False []" and path = "PosixPath False []" and prefix = "[]"
      and is_last = True]
  have "(ascii ''locked'', 0, ascii ''locked'')
     \<in> set (snd (walk_directory ascii_lower default_ignore_dirs (PosixPath False [])
                   (PosixPath False []) [] True
                   (Entries [RegularFile (ascii ''locked'') (Inl PermissionError)])))"
    unfolding p by blast
  with h locked_not_ignored show ?thesis by simp
qed

section \<open>The order of the children\<close>

lemma sorted_items_mset: "mset (sorted_items lower cs) = mset cs"
  by (simp add: sorted_items_def)

lemma sorted_items_keys:
  "sorted_wrt (\<lambda>a b. (is_file a, lower (name a)) \<le> (is_file b, lower (name b)))
     (sorted_items lower cs)"
proof -
  have "sorted (map (\<lambda>x. (is_file x, lower (name x))) (sorted_items lower cs))"
    unfolding sorted_items_def by (rule sorted_sort_key)
  then show ?thesis by (simp add: sorted_map)
qed

lemma sorted_items_files_last:
  "sorted_wrt (\<lambda>a b. \<not> (is_file a \<and> is_dir b)) (sorted_items lower cs)"
proof (rule sorted_wrt_mono_rel [OF _ sorted_items_keys])
  fix a b
  assume "(is_file a, lower (name a)) \<le> (is_file b, lower (name b))"
  then show "\<not> (is_file a \<and> is_dir b)"
    by (cases b) auto
qed

lemma sorted_items_group:
  assumes "\<And>a b. P a \<Longrightarrow> P b \<Longrightarrow> is_file a = is_file b"
  shows "sorted (map (\<lambda>x. lower (name x)) (filter P (sorted_items lower cs)))"
proof -
  have "sorted_wrt (\<lambda>a b. (is_file a, lower (name a)) \<le> (is_file b, lower (name b)))
          (filter P (sorted_items lower cs))"
    by (rule sorted_wrt_filter [OF sorted_items_keys])
  then have "sorted_wrt (\<lambda>a b. lower (name a) \<le> lower (name b))
          (filter P (sorted_items lower cs))"
  proof (rule sorted_wrt_mono_rel [rotated])
    fix a b
    assume "a \<in> set (filter P (sorted_items lower cs))"
      and "b \<in> set (filter P (sorted_items lower cs))"
      and le: "(is_file a, lower (name a)) \<le> (is_file b, lower (name b))"
    then have "is_file a = is_file b" using assms by simp
    with le show "lower (name a) \<le> lower (name b)" by simp
  qed
  then show ?thesis by (simp add: sorted_map)
qed

text \<open>
  Claim C6. At every level of the walk the loop runs over \<open>sorted_items\<close>, a
  rearrangement of the immediate children in which no regular file comes before a
  directory, the directories are in ascending order of their lower-cased names, and
  so are the regular files.
\<close>

theorem children_order:
  "mset (sorted_items lower cs) = mset cs \<and>
   sorted_wrt (\<lambda>a b. \<not> (is_file a \<and> is_dir b)) (sorted_items lower cs) \<and>
   sorted (map (\<lambda>x. lower (name x)) (filter is_dir (sorted_items lower cs))) \<and>
   sorted (map (\<lambda>x. lower (name x)) (filter is_file (sorted_items lower cs))) \<and>
   walk_directory lower ignore_dirs root path prefix is_last (Entries cs) =
     flatten (map (\<lambda>(i, item). walk_item lower ignore_dirs root path prefix
                     (i = length (sorted_items lower cs) - 1) item)
                (enumerate 0 (sorted_items lower cs)))"
proof -
  have d: "sorted (map (\<lambda>x. lower (name x)) (filter is_dir (sorted_items lower cs)))"
  proof (rule sorted_items_group)
    fix a b show "is_dir a \<Longrightarrow> is_dir b \<Longrightarrow> is_file a = is_file b"
      by (cases a; cases b) auto
  qed
  have f: "sorted (map (\<lambda>x. lower (name x)) (filter is_file (sorted_items lower cs)))"
    by (rule sorted_items_group) simp
  show ?thesis
    using sorted_items_mset sorted_items_files_last d f
    by (simp add: walk_directory.simps(2) Let_def)
qed

section \<open>Sorting the file entries\<close>

lemma sort_reverse_descending:
  "sorted_wrt (\<lambda>a b. key a \<ge> key b) (sort_reverse key xs)"
proof -
  have "sorted (map key (sort_key key (rev xs)))" by (rule sorted_sort_key)
  then show ?thesis
    by (simp add: sort_reverse_def sorted_wrt_rev sorted_map)
qed

lemma sort_reverse_stable:
  "filter (\<lambda>e. key e = k) (sort_reverse key xs) = filter (\<lambda>e. key e = k) xs"
  by (simp add: sort_reverse_def rev_filter [symmetric] sort_key_stable)

lemma sort_reverse_mset: "mset (sort_reverse key xs) = mset xs"
  by (simp add: sort_reverse_def)

text \<open>
  Claim C7. \<^verbatim>\<open>main\<close> sorts the entries of the walk with \<open>sort_reverse\<close> on the
  character count. The result is non-increasing in the count (for every pair of
  positions, so for every adjacent pair), it is a rearrangement of the entries, and
  the entries of any one count \<open>c\<close> keep the order the traversal produced.
\<close>

theorem report_sort_descending_stable:
  "file_info (main lower fs) =
     sort_reverse (\<lambda>x. fst (snd x))
       (snd (get_tree_structure lower (PosixPath False []) None fs)) \<and>
   sorted_wrt (\<lambda>a b. fst (snd a) \<ge> fst (snd b)) (sort_reverse (\<lambda>x. fst (snd x)) es) \<and>
   filter (\<lambda>e. fst (snd e) = c) (sort_reverse (\<lambda>x. fst (snd x)) es) =
     filter (\<lambda>e. fst (snd e) = c) es \<and>
   mset (sort_reverse (\<lambda>x. fst (snd x)) es) = mset es"
  for es :: "file_entry list"
  using main_file_info sort_reverse_descending [of "\<lambda>x. fst (snd x)" es]
    sort_reverse_stable [of "\<lambda>x. fst (snd x)" c es] sort_reverse_mset
  by simp

section \<open>The report of an empty root\<close>

lemma get_tree_structure_empty:
  "get_tree_structure lower root_dir ig (Entries []) = ([], [])"
  by (simp add: get_tree_structure_def walk_directory.simps(2) sorted_items_def flatten_def)

text \<open>
  Claim C8. For an empty root directory the text written consists of the banner of
  80 \<^verbatim>\<open>=\<close> characters, the title, the banner, the line \<^verbatim>\<open>.\<close>, no tree lines, and the
  second banner, title and banner with no file line after them; the file count
  printed at the end is 0.
\<close>

theorem empty_root_report:
  "written (main lower (Entries [])) =
     [banner @ newline,
      [84, 82, 69, 69, 32, 1057, 1058, 1056, 1059, 1050, 1058, 1059, 1056, 1040, 32,
       1056, 1045, 1055, 1054, 1047, 1048, 1058, 1054, 1056, 1048, 1071] @ newline,
      banner @ newline @ newline,
      ascii ''.'' @ newline,
      newline @ banner @ newline,
      [1058, 1054, 1055, 32, 49, 48, 48, 32, 1060, 1040, 1049, 1051, 1054, 1042, 32,
       1055, 1054, 32, 1050, 1054, 1051, 1048, 1063, 1045, 1057, 1058, 1042, 1059, 32,
       1057, 1048, 1052, 1042, 1054, 1051, 1054, 1042, 32, 40, 1086, 1090, 32, 1073,
       1086, 1083, 1100, 1096, 1080, 1093, 32, 1082, 32, 1084, 1072, 1083, 1077, 1085,
       1100, 1082, 1080, 1084, 41] @ newline,
      banner @ newline @ newline] \<and>
   banner = replicate 80 61 \<and>
   tree_section (fst (get_tree_structure lower (PosixPath False []) None (Entries []))) =
     tree_section [] \<and>
   file_info (main lower (Entries [])) = [] \<and>
   last (printed (main lower (Entries []))) =
     [1042, 1089, 1077, 1075, 1086, 32, 1092, 1072, 1081, 1083, 1086, 1074, 32,
      1086, 1073, 1088, 1072, 1073, 1086, 1090, 1072, 1085, 1086, 58, 32] @ ascii ''0''"
  by (simp add: main_def get_tree_structure_empty tree_section_def top_files_section_def
      sort_reverse_def decimal_0 ascii_def banner_def)

section \<open>Entries that are neither file nor directory\<close>



section \<open>Termination and the recursion limit\<close>




end
